theory Spec2Isabelle
  imports Main "HOL-Library.Char_ord" "HOL-Library.List_Lexorder"
begin

section \<open>The static site generator of gh-host\<close>

text \<open>
  The generator (the second program of \<^verbatim>\<open>src/main.go\<close>, from \<^verbatim>\<open>type Post\<close> on)
  reads every \<^verbatim>\<open>.md\<close> file of \<^verbatim>\<open>content/posts\<close>, splits it into a YAML front matter and
  a Markdown body, and writes one page per post, an index page and one page per tag.
  Go strings are byte sequences: they are modelled as \<^typ>\<open>string\<close>.
\<close>

subsection \<open>The functions of package \<^verbatim>\<open>strings\<close> and \<^verbatim>\<open>fmt\<close> the generator calls\<close>

definition HasPrefix :: "string \<Rightarrow> string \<Rightarrow> bool" where
  "HasPrefix s prefix = (length s \<ge> length prefix \<and> take (length prefix) s = prefix)"

definition HasSuffix :: "string \<Rightarrow> string \<Rightarrow> bool" where
  "HasSuffix s suffix =
     (length s \<ge> length suffix \<and> drop (length s - length suffix) s = suffix)"

definition TrimPrefix :: "string \<Rightarrow> string \<Rightarrow> string" where
  "TrimPrefix s prefix = (if HasPrefix s prefix then drop (length prefix) s else s)"

definition TrimSuffix :: "string \<Rightarrow> string \<Rightarrow> string" where
  "TrimSuffix s suffix =
     (if HasSuffix s suffix then take (length s - length suffix) s else s)"

fun Join :: "string list \<Rightarrow> string \<Rightarrow> string" where
  "Join [] sep = []"
| "Join [e] sep = e"
| "Join (e # f # es) sep = e @ sep @ Join (f # es) sep"

subsection \<open>Posts\<close>

record Post =
  Title :: string
  Date :: string
  Tags :: "string list"
  Content :: string
  Slug :: string
  BaseURL :: string

text \<open>The zero value \<^verbatim>\<open>Post{}\<close>, which \<^verbatim>\<open>var post Post\<close> declares.\<close>

definition Post_zero :: Post where
  "Post_zero = \<lparr>Title = [], Date = [], Tags = [], Content = [], Slug = [], BaseURL = []\<rparr>"

subsection \<open>The tag index of \<^verbatim>\<open>generateTags\<close>\<close>

text \<open>
  \<^verbatim>\<open>tags := make(map[string][]Post)\<close> is a finite map; reading a missing key gives the
  nil slice, and \<^verbatim>\<open>tags[tag] = append(tags[tag], post)\<close> stores the extended slice.
\<close>

type_synonym TagIndex = "string \<rightharpoonup> Post list"

definition tag_lookup :: "TagIndex \<Rightarrow> string \<Rightarrow> Post list" where
  "tag_lookup tags tag = (case tags tag of None \<Rightarrow> [] | Some ps \<Rightarrow> ps)"

definition tag_append :: "TagIndex \<Rightarrow> string \<Rightarrow> Post \<Rightarrow> TagIndex" where
  "tag_append tags tag post = tags(tag \<mapsto> tag_lookup tags tag @ [post])"

text \<open>The inner loop \<^verbatim>\<open>for _, tag := range post.Tags\<close>.\<close>

fun index_post :: "TagIndex \<Rightarrow> Post \<Rightarrow> string list \<Rightarrow> TagIndex" where
  "index_post tags post [] = tags"
| "index_post tags post (tag # rest) = index_post (tag_append tags tag post) post rest"

text \<open>The outer loop \<^verbatim>\<open>for _, post := range posts\<close>.\<close>

fun index_posts :: "TagIndex \<Rightarrow> Post list \<Rightarrow> TagIndex" where
  "index_posts tags [] = tags"
| "index_posts tags (post # rest) = index_posts (index_post tags post (Tags post)) rest"

definition buildTagIndex :: "Post list \<Rightarrow> TagIndex" where
  "buildTagIndex posts = index_posts Map.empty posts"

subsection \<open>What the generator takes from its libraries and from the operating system\<close>

text \<open>
  An \<^verbatim>\<open>error\<close> value of Go. The generator never inspects one: it hands the first one it
  meets to its caller, and \<^verbatim>\<open>main\<close> to \<^verbatim>\<open>log.Fatal\<close>.
\<close>

datatype error = IOError string | DecodeError string | TemplateError string

record DirEntry =
  Name :: string
  IsDir :: bool

text \<open>The data a template is executed on: a post, the index data, or the data of a tag page.\<close>

datatype tdata =
    PostData Post
  | IndexData "Post list" string
  | TagData string "Post list" string

text \<open>
  The library functions and system calls are parameters of the model, collected in one
  record; \<open>'t\<close> is the type of a parsed template.
  \<^item> \<open>os_ReadDir dir\<close>: the entries of a directory, or an error;
  \<^item> \<open>os_Open name\<close>: an error, or the lines of the file, that is the successive values of
    \<^verbatim>\<open>scanner.Text()\<close> while \<^verbatim>\<open>scanner.Scan()\<close> holds (a line carries no end-of-line marker);
  \<^item> \<open>yaml_Unmarshal text\<close>: an error, or the \<^verbatim>\<open>Post\<close> that \<^verbatim>\<open>yaml.Unmarshal\<close> leaves in a
    zero-valued \<^verbatim>\<open>Post\<close>;
  \<^item> \<open>markdown_ToHTML\<close>: the Markdown renderer;
  \<^item> \<open>template_ParseFiles\<close> and \<open>template_Execute\<close>: parsing the template files, and the
    document a template writes for some data, or an error;
  \<^item> \<open>os_Create\<close> and \<open>os_MkdirAll\<close>: \<open>None\<close> when the call succeeds;
  \<^item> \<open>os_Getenv\<close>: the environment.
\<close>

record 't env =
  os_ReadDir :: "string \<Rightarrow> error + DirEntry list"
  os_Open :: "string \<Rightarrow> error + string list"
  yaml_Unmarshal :: "string \<Rightarrow> error + Post"
  markdown_ToHTML :: "string \<Rightarrow> string"
  template_ParseFiles :: "string list \<Rightarrow> error + 't"
  template_Execute :: "'t \<Rightarrow> tdata \<Rightarrow> error + string"
  os_Create :: "string \<Rightarrow> error option"
  os_MkdirAll :: "string \<Rightarrow> error option"
  os_Getenv :: "string \<Rightarrow> string"

subsection \<open>\<^verbatim>\<open>readPost\<close>: splitting a file into front matter and body\<close>

text \<open>
  The local variables of the scanning loop. \<open>count\<close> is a Go \<^verbatim>\<open>int\<close> that is incremented
  once per delimiter line; a file cannot hold enough lines to overflow it, so it is a
  natural number here.
\<close>

record scan =
  frontmatter :: "string list"
  content :: "string list"
  inFrontmatter :: bool
  count :: nat

definition scan_init :: scan where
  "scan_init = \<lparr>frontmatter = [], content = [], inFrontmatter = False, count = 0\<rparr>"

text \<open>The end of the loop body: the line goes to the front matter or to the content.\<close>

definition keep_line :: "string \<Rightarrow> scan \<Rightarrow> scan" where
  "keep_line line s =
     (if inFrontmatter s then s\<lparr>frontmatter := frontmatter s @ [line]\<rparr>
      else s\<lparr>content := content s @ [line]\<rparr>)"

text \<open>
  The loop body. The two \<^verbatim>\<open>continue\<close> statements skip \<open>keep_line\<close>; a line with the prefix
  that is neither the first nor the second one falls through to it.
\<close>

definition scan_line :: "string \<Rightarrow> scan \<Rightarrow> scan" where
  "scan_line line s =
     (if HasPrefix line ''---'' then
        (let s1 = s\<lparr>count := count s + 1\<rparr> in
         if count s1 = 1 then s1\<lparr>inFrontmatter := True\<rparr>
         else if count s1 = 2 then s1\<lparr>inFrontmatter := False\<rparr>
         else keep_line line s1)
      else keep_line line s)"

fun scan_lines :: "string list \<Rightarrow> scan \<Rightarrow> scan" where
  "scan_lines [] s = s"
| "scan_lines (line # rest) s = scan_lines rest (scan_line line s)"

definition newline :: string where
  "newline = [CHR 0x0A]"

text \<open>The two assignments to \<^verbatim>\<open>post.Slug\<close>.\<close>

definition slug_of :: "string \<Rightarrow> string" where
  "slug_of fileName = TrimPrefix (TrimSuffix fileName ''.md'') ''content/posts/''"

definition readPost :: "'t env \<Rightarrow> string \<Rightarrow> string \<Rightarrow> error + Post" where
  "readPost e fileName baseURL =
     (case os_Open e fileName of
        Inl err \<Rightarrow> Inl err
      | Inr lines \<Rightarrow>
          (let s = scan_lines lines scan_init in
           case yaml_Unmarshal e (Join (frontmatter s) newline) of
             Inl err \<Rightarrow> Inl err
           | Inr post \<Rightarrow>
               Inr (post\<lparr>Content := markdown_ToHTML e (Join (content s) newline),
                         Slug := slug_of fileName,
                         BaseURL := baseURL\<rparr>)))"

subsection \<open>\<^verbatim>\<open>readPosts\<close>: the collection reader\<close>

definition selected :: "DirEntry \<Rightarrow> bool" where
  "selected file = (\<not> IsDir file \<and> HasSuffix (Name file) ''.md'')"

definition post_path :: "string \<Rightarrow> string \<Rightarrow> string" where
  "post_path dir name = dir @ ''/'' @ name"

fun readPosts_loop ::
  "'t env \<Rightarrow> string \<Rightarrow> string \<Rightarrow> DirEntry list \<Rightarrow> Post list \<Rightarrow> error + Post list" where
  "readPosts_loop e dir baseURL [] posts = Inr posts"
| "readPosts_loop e dir baseURL (file # rest) posts =
     (if selected file then
        (case readPost e (post_path dir (Name file)) baseURL of
           Inl err \<Rightarrow> Inl err
         | Inr post \<Rightarrow> readPosts_loop e dir baseURL rest (posts @ [post]))
      else readPosts_loop e dir baseURL rest posts)"

definition readPosts :: "'t env \<Rightarrow> string \<Rightarrow> string \<Rightarrow> error + Post list" where
  "readPosts e dir baseURL =
     (case os_ReadDir e dir of
        Inl err \<Rightarrow> Inl err
      | Inr files \<Rightarrow> readPosts_loop e dir baseURL files [])"

subsection \<open>The page composer\<close>

text \<open>
  The output directory is a map from file names to documents. \<^verbatim>\<open>os.Create\<close> truncates the
  file and \<^verbatim>\<open>tmpl.Execute\<close> writes the document into it. A function that returns an
  error returns no output: what an aborted run leaves behind is not modelled.
\<close>

type_synonym documents = "string \<rightharpoonup> string"

definition write_page ::
  "'t env \<Rightarrow> 't \<Rightarrow> string \<Rightarrow> tdata \<Rightarrow> documents \<Rightarrow> error + documents" where
  "write_page e tmpl path data out =
     (case os_Create e path of
        Some err \<Rightarrow> Inl err
      | None \<Rightarrow>
          (case template_Execute e tmpl data of
             Inl err \<Rightarrow> Inl err
           | Inr doc \<Rightarrow> Inr (out(path \<mapsto> doc))))"

definition post_file :: "Post \<Rightarrow> string" where
  "post_file post = ''output/'' @ Slug post @ ''.html''"

definition tag_file :: "string \<Rightarrow> string" where
  "tag_file tag = ''output/tag-'' @ tag @ ''.html''"

fun generatePosts_loop :: "'t env \<Rightarrow> 't \<Rightarrow> Post list \<Rightarrow> documents \<Rightarrow> error + documents" where
  "generatePosts_loop e tmpl [] out = Inr out"
| "generatePosts_loop e tmpl (post # rest) out =
     (case write_page e tmpl (post_file post) (PostData post) out of
        Inl err \<Rightarrow> Inl err
      | Inr out1 \<Rightarrow> generatePosts_loop e tmpl rest out1)"

definition generatePosts :: "'t env \<Rightarrow> Post list \<Rightarrow> string \<Rightarrow> documents \<Rightarrow> error + documents" where
  "generatePosts e posts baseURL out =
     (case template_ParseFiles e [''templates/layout.html'', ''templates/post.html''] of
        Inl err \<Rightarrow> Inl err
      | Inr tmpl \<Rightarrow> generatePosts_loop e tmpl posts out)"

definition generateIndex :: "'t env \<Rightarrow> Post list \<Rightarrow> string \<Rightarrow> documents \<Rightarrow> error + documents" where
  "generateIndex e posts baseURL out =
     (case template_ParseFiles e [''templates/layout.html'', ''templates/index.html''] of
        Inl err \<Rightarrow> Inl err
      | Inr tmpl \<Rightarrow> write_page e tmpl ''output/index.html'' (IndexData posts baseURL) out)"

text \<open>
  \<^verbatim>\<open>for tag, posts := range tags\<close> visits every key of the map once, in an order that Go
  leaves open. The order is the parameter \<open>ks\<close>; \<open>range_order tags ks\<close> says that \<open>ks\<close> is
  an order in which the loop may run.
\<close>

definition range_order :: "TagIndex \<Rightarrow> string list \<Rightarrow> bool" where
  "range_order tags ks = (distinct ks \<and> set ks = dom tags)"

fun generateTags_loop ::
  "'t env \<Rightarrow> 't \<Rightarrow> TagIndex \<Rightarrow> string \<Rightarrow> string list \<Rightarrow> documents \<Rightarrow> error + documents" where
  "generateTags_loop e tmpl tags baseURL [] out = Inr out"
| "generateTags_loop e tmpl tags baseURL (tag # rest) out =
     (case write_page e tmpl (tag_file tag) (TagData tag (tag_lookup tags tag) baseURL) out of
        Inl err \<Rightarrow> Inl err
      | Inr out1 \<Rightarrow> generateTags_loop e tmpl tags baseURL rest out1)"

definition generateTags ::
  "'t env \<Rightarrow> Post list \<Rightarrow> string \<Rightarrow> string list \<Rightarrow> documents \<Rightarrow> error + documents" where
  "generateTags e posts baseURL ks out =
     (case template_ParseFiles e [''templates/layout.html'', ''templates/tag.html''] of
        Inl err \<Rightarrow> Inl err
      | Inr tmpl \<Rightarrow> generateTags_loop e tmpl (buildTagIndex posts) baseURL ks out)"

text \<open>The three generation steps of \<^verbatim>\<open>main\<close>, in its order, each aborting the run on an error.\<close>

definition compose ::
  "'t env \<Rightarrow> Post list \<Rightarrow> string \<Rightarrow> string list \<Rightarrow> documents \<Rightarrow> error + documents" where
  "compose e posts baseURL ks out =
     (case generatePosts e posts baseURL out of
        Inl err \<Rightarrow> Inl err
      | Inr out1 \<Rightarrow>
          (case generateIndex e posts baseURL out1 of
             Inl err \<Rightarrow> Inl err
           | Inr out2 \<Rightarrow> generateTags e posts baseURL ks out2))"

definition main :: "'t env \<Rightarrow> string list \<Rightarrow> documents \<Rightarrow> error + documents" where
  "main e ks out =
     (let baseURL = os_Getenv e ''BASE_URL'' in
      case os_MkdirAll e ''output'' of
        Some err \<Rightarrow> Inl err
      | None \<Rightarrow>
          (case os_MkdirAll e ''content/posts'' of
             Some err \<Rightarrow> Inl err
           | None \<Rightarrow>
               (case readPosts e ''content/posts'' baseURL of
                  Inl err \<Rightarrow> Inl err
                | Inr posts \<Rightarrow> compose e posts baseURL ks out)))"

subsection \<open>A small content directory\<close>

text \<open>
  Concrete inputs on which the theorems below are instantiated: the post of the
  specification's scenario, a file with no front matter at all, a post that lists a tag
  twice, and an environment with stand-ins for the decoder, the renderer and the
  template engine.
\<close>

definition hello_world_lines :: "string list" where
  "hello_world_lines =
     [''---'', ''title: Hello World'', ''date: 2024-01-01'', ''tags: [intro, test]'', ''---'',
      [], ''# Hi'']"

definition hello_world :: Post where
  "hello_world =
     \<lparr>Title = ''Hello World'', Date = ''2024-01-01'', Tags = [''intro'', ''test''],
      Content = ''<article>'' @ newline @ ''# Hi</article>'', Slug = ''hello-world'',
      BaseURL = []\<rparr>"

definition plain_post :: Post where
  "plain_post =
     \<lparr>Title = [], Date = [], Tags = [],
      Content = ''<article>just text'' @ newline @ ''more text</article>'',
      Slug = ''plain'', BaseURL = []\<rparr>"

definition second_post :: Post where
  "second_post =
     \<lparr>Title = ''Second'', Date = ''2024-01-03'', Tags = [''test''],
      Content = [], Slug = ''second'', BaseURL = []\<rparr>"

definition twice_tagged :: Post where
  "twice_tagged =
     \<lparr>Title = ''Twice'', Date = ''2024-01-02'', Tags = [''go'', ''go''],
      Content = [], Slug = ''twice'', BaseURL = []\<rparr>"

definition example_dir :: "DirEntry list" where
  "example_dir =
     [\<lparr>Name = ''drafts'', IsDir = True\<rparr>,
      \<lparr>Name = ''hello-world.md'', IsDir = False\<rparr>,
      \<lparr>Name = ''notes.txt'', IsDir = False\<rparr>,
      \<lparr>Name = ''old.md'', IsDir = True\<rparr>,
      \<lparr>Name = ''plain.md'', IsDir = False\<rparr>]"

definition example_render :: "string \<Rightarrow> tdata \<Rightarrow> error + string" where
  "example_render tmpl data =
     (case data of
        PostData p \<Rightarrow> Inr (tmpl @ '' '' @ Title p)
      | IndexData ps b \<Rightarrow> Inr (tmpl @ concat (map (\<lambda>p. '' '' @ Slug p) ps))
      | TagData t ps b \<Rightarrow> Inr (tmpl @ '' '' @ t @ '':'' @ concat (map (\<lambda>p. '' '' @ Slug p) ps)))"

definition example_env :: "string env" where
  "example_env =
     \<lparr>os_ReadDir = (\<lambda>dir. if dir = ''content/posts'' then Inr example_dir
                           else Inl (IOError ''no such directory'')),
      os_Open = (\<lambda>name. if name = ''content/posts/hello-world.md'' then Inr hello_world_lines
                         else if name = ''content/posts/plain.md'' then Inr [''just text'', ''more text'']
                         else Inl (IOError ''no such file'')),
      yaml_Unmarshal = (\<lambda>text. if text = [] then Inr Post_zero
                         else if text = ''title: Hello World'' @ newline @ ''date: 2024-01-01''
                                         @ newline @ ''tags: [intro, test]''
                         then Inr (Post_zero\<lparr>Title := ''Hello World'', Date := ''2024-01-01'',
                                             Tags := [''intro'', ''test'']\<rparr>)
                         else Inl (DecodeError ''cannot unmarshal'')),
      markdown_ToHTML = (\<lambda>body. ''<article>'' @ body @ ''</article>''),
      template_ParseFiles = (\<lambda>files. case files of [layout, view] \<Rightarrow> Inr view
                                      | _ \<Rightarrow> Inl (TemplateError ''no template'')),
      template_Execute = example_render,
      os_Create = (\<lambda>name. None),
      os_MkdirAll = (\<lambda>name. None),
      os_Getenv = (\<lambda>key. [])\<rparr>"

text \<open>The same directory when \<^verbatim>\<open>plain.md\<close> cannot be opened.\<close>

definition unreadable_env :: "string env" where
  "unreadable_env =
     example_env\<lparr>os_Open := (\<lambda>name. if name = ''content/posts/plain.md''
                                      then Inl (IOError ''permission denied'')
                                      else os_Open example_env name)\<rparr>"

definition example_site :: documents where
  "example_site =
     [''output/hello-world.html'' \<mapsto> ''templates/post.html Hello World'',
      ''output/plain.html'' \<mapsto> ''templates/post.html '',
      ''output/index.html'' \<mapsto> ''templates/index.html hello-world plain'',
      ''output/tag-intro.html'' \<mapsto> ''templates/tag.html intro: hello-world'',
      ''output/tag-test.html'' \<mapsto> ''templates/tag.html test: hello-world'']"

section \<open>Properties\<close>

subsection \<open>The string functions\<close>

lemma HasSuffix_append: "HasSuffix (s @ suffix) suffix"
  by (simp add: HasSuffix_def)

lemma HasPrefix_append: "HasPrefix (prefix @ s) prefix"
  by (simp add: HasPrefix_def)

lemma TrimSuffix_append: "TrimSuffix (s @ suffix) suffix = s"
  by (simp add: TrimSuffix_def HasSuffix_append)

lemma TrimPrefix_append: "TrimPrefix (prefix @ s) prefix = s"
  by (simp add: TrimPrefix_def HasPrefix_append)


subsection \<open>The example directory, evaluated\<close>

lemmas example_defs =
  example_env_def example_dir_def hello_world_lines_def hello_world_def plain_post_def
  second_post_def twice_tagged_def Post_zero_def newline_def example_render_def
  example_site_def unreadable_env_def

lemmas scan_defs = scan_init_def scan_line_def keep_line_def HasPrefix_def

lemmas slug_defs = slug_of_def TrimSuffix_def TrimPrefix_def HasSuffix_def HasPrefix_def

lemma example_readPost_hello:
  "readPost example_env ''content/posts/hello-world.md'' [] = Inr hello_world"
  by (simp add: readPost_def example_defs scan_defs slug_defs)

lemma example_readPost_plain:
  "readPost example_env ''content/posts/plain.md'' [] = Inr plain_post"
  by (simp add: readPost_def example_defs scan_defs slug_defs)

lemma example_selected:
  "filter selected example_dir =
     [\<lparr>Name = ''hello-world.md'', IsDir = False\<rparr>, \<lparr>Name = ''plain.md'', IsDir = False\<rparr>]"
  by (simp add: example_dir_def selected_def HasSuffix_def)

lemma example_ReadDir: "os_ReadDir example_env ''content/posts'' = Inr example_dir"
  by (simp add: example_env_def)

lemma example_readPosts:
  "readPosts example_env ''content/posts'' [] = Inr [hello_world, plain_post]"
  by (simp add: readPosts_def example_ReadDir)
     (simp add: example_dir_def selected_def HasSuffix_def post_path_def
        example_readPost_hello example_readPost_plain)

lemma example_tags: "dom (buildTagIndex [hello_world, plain_post]) = {''intro'', ''test''}"
  by (auto simp: buildTagIndex_def hello_world_def plain_post_def tag_append_def)

lemma example_compose:
  "compose example_env [hello_world, plain_post] [] [''intro'', ''test''] Map.empty
     = Inr example_site"
  by (simp add: compose_def generatePosts_def generateIndex_def generateTags_def write_page_def
      post_file_def tag_file_def buildTagIndex_def tag_append_def tag_lookup_def example_defs)

subsection \<open>The tag index\<close>

lemma tag_lookup_append:
  "tag_lookup (tag_append tags tag post) T =
     tag_lookup tags T @ (if T = tag then [post] else [])"
  by (simp add: tag_lookup_def tag_append_def)

lemma dom_tag_append: "dom (tag_append tags tag post) = insert tag (dom tags)"
  by (simp add: tag_append_def)

lemma tag_lookup_index_post:
  "tag_lookup (index_post tags post ts) T =
     tag_lookup tags T @ replicate (count_list ts T) post"
  by (induction ts arbitrary: tags) (auto simp: tag_lookup_append replicate_app_Cons_same)

lemma dom_index_post: "dom (index_post tags post ts) = dom tags \<union> set ts"
  by (induction ts arbitrary: tags) (auto simp: dom_tag_append)

lemma tag_lookup_index_posts:
  "tag_lookup (index_posts tags posts) T =
     tag_lookup tags T @ concat (map (\<lambda>p. replicate (count_list (Tags p) T) p) posts)"
  by (induction posts arbitrary: tags) (auto simp: tag_lookup_index_post)

lemma dom_index_posts:
  "dom (index_posts tags posts) = dom tags \<union> (\<Union>p \<in> set posts. set (Tags p))"
  by (induction posts arbitrary: tags) (auto simp: dom_index_post)

text \<open>
  The group of a tag holds every post once for each time the post lists the tag, in the
  order of the collection.
\<close>

lemma tag_lookup_buildTagIndex:
  "tag_lookup (buildTagIndex posts) T =
     concat (map (\<lambda>p. replicate (count_list (Tags p) T) p) posts)"
  using tag_lookup_index_posts [of Map.empty posts T]
  by (simp add: buildTagIndex_def tag_lookup_def)

lemma dom_buildTagIndex: "dom (buildTagIndex posts) = (\<Union>p \<in> set posts. set (Tags p))"
  by (simp add: buildTagIndex_def dom_index_posts)

lemma buildTagIndex_group:
  "buildTagIndex posts T =
     (if \<exists>p \<in> set posts. T \<in> set (Tags p) then Some (tag_lookup (buildTagIndex posts) T)
      else None)"
proof -
  have "T \<in> dom (buildTagIndex posts) \<longleftrightarrow> (\<exists>p \<in> set posts. T \<in> set (Tags p))"
    by (simp add: dom_buildTagIndex)
  then show ?thesis
    by (cases "buildTagIndex posts T") (auto simp: tag_lookup_def dom_def)
qed

lemma groups_of_distinct_tags:
  assumes "\<forall>p \<in> set posts. distinct (Tags p)"
  shows "concat (map (\<lambda>p. replicate (count_list (Tags p) T) p) posts)
           = filter (\<lambda>p. T \<in> set (Tags p)) posts"
proof -
  have c: "count_list ts T = (if T \<in> set ts then 1 else 0)" if "distinct ts"
    for ts :: "string list"
    using that by (induction ts) auto
  show ?thesis using assms by (induction posts) (auto simp: c)
qed

text \<open>
  C1, as amended. When no post lists a tag twice, the group of a tag \<open>T\<close> is the
  collection filtered by "carries \<open>T\<close>": every post that carries \<open>T\<close> is in the group once,
  in the order in which the posts were read, a tag that no post carries has no group, and
  a post of the collection is in as many groups as it has tags.
\<close>

theorem tag_index_complete_stable:
  assumes "\<forall>p \<in> set posts. distinct (Tags p)"
  shows "buildTagIndex posts T =
           (if \<exists>p \<in> set posts. T \<in> set (Tags p)
            then Some (filter (\<lambda>p. T \<in> set (Tags p)) posts) else None)
       \<and> (\<forall>p \<in> set posts.
            card {T. p \<in> set (tag_lookup (buildTagIndex posts) T)} = length (Tags p))"
proof -
  have g: "tag_lookup (buildTagIndex posts) T = filter (\<lambda>p. T \<in> set (Tags p)) posts" for T
    by (simp add: tag_lookup_buildTagIndex groups_of_distinct_tags [OF assms])
  have "{T. p \<in> set (tag_lookup (buildTagIndex posts) T)} = set (Tags p)"
    if "p \<in> set posts" for p
    using that by (auto simp: g)
  with assms have
    "\<forall>p \<in> set posts. card {T. p \<in> set (tag_lookup (buildTagIndex posts) T)} = length (Tags p)"
    by (simp add: distinct_card)
  moreover have "buildTagIndex posts T =
           (if \<exists>p \<in> set posts. T \<in> set (Tags p)
            then Some (filter (\<lambda>p. T \<in> set (Tags p)) posts) else None)"
    using buildTagIndex_group [of posts T] by (simp add: g)
  ultimately show ?thesis by blast
qed

theorem tag_index_complete_stable_witness:
  "distinct (Tags hello_world) \<and> distinct (Tags second_post)
   \<and> buildTagIndex [hello_world, second_post] ''test'' = Some [hello_world, second_post]
   \<and> card {T. hello_world \<in> set (tag_lookup (buildTagIndex [hello_world, second_post]) T)} = 2"
proof -
  have h: "\<forall>p \<in> set [hello_world, second_post]. distinct (Tags p)"
    by (simp add: hello_world_def second_post_def)
  show ?thesis
    using h tag_index_complete_stable [OF h, of "''test''"]
    by (simp add: hello_world_def second_post_def)
qed

text \<open>
  C1 as stated fails on a post that lists a tag twice: the post has two tags, it is in
  one group only, and it is in that group twice.
\<close>

theorem tag_index_duplicate_tag_counterexample:
  "Tags twice_tagged = [''go'', ''go'']
   \<and> buildTagIndex [twice_tagged] ''go'' = Some [twice_tagged, twice_tagged]
   \<and> dom (buildTagIndex [twice_tagged]) = {''go''}"
  by (simp add: buildTagIndex_def tag_append_def tag_lookup_def twice_tagged_def)

subsection \<open>The splitter of \<^verbatim>\<open>readPost\<close>\<close>

lemma scan_lines_append: "scan_lines (xs @ ys) s = scan_lines ys (scan_lines xs s)"
  by (induction xs arbitrary: s) auto

lemma count_scan_line:
  "count (scan_line l s) = count s + (if HasPrefix l ''---'' then 1 else 0)"
  by (simp add: scan_line_def keep_line_def Let_def)

lemma count_scan_lines:
  "count (scan_lines ls s) = count s + length (filter (\<lambda>l. HasPrefix l ''---'') ls)"
  by (induction ls arbitrary: s) (auto simp: count_scan_line)

lemma inFrontmatter_scan_line:
  "inFrontmatter (scan_line l s) =
     (if HasPrefix l ''---'' \<and> count s = 0 then True
      else if HasPrefix l ''---'' \<and> count s = 1 then False
      else inFrontmatter s)"
  by (simp add: scan_line_def keep_line_def Let_def)

text \<open>The loop is in the front matter exactly when it has counted one delimiter.\<close>

lemma mode_invariant:
  "inFrontmatter s = (count s = 1) \<Longrightarrow>
   inFrontmatter (scan_lines ls s) = (count (scan_lines ls s) = 1)"
proof (induction ls arbitrary: s)
  case Nil
  then show ?case by simp
next
  case (Cons l ls)
  have "inFrontmatter (scan_line l s) = (count (scan_line l s) = 1)"
    using Cons.prems by (auto simp: inFrontmatter_scan_line count_scan_line)
  then show ?case using Cons.IH by simp
qed

lemma mode_scan_lines:
  "inFrontmatter (scan_lines ls scan_init)
     = (length (filter (\<lambda>l. HasPrefix l ''---'') ls) = 1)"
  using mode_invariant [of scan_init ls] by (simp add: count_scan_lines scan_init_def)

lemma scan_body_lines:
  "\<forall>l \<in> set ls. \<not> HasPrefix l ''---'' \<Longrightarrow> \<not> inFrontmatter s \<Longrightarrow>
   scan_lines ls s = s\<lparr>content := content s @ ls\<rparr>"
  by (induction ls arbitrary: s) (auto simp: scan_line_def keep_line_def)

lemma scan_after_closing:
  "2 \<le> count s \<Longrightarrow> \<not> inFrontmatter s \<Longrightarrow>
   content (scan_lines ls s) = content s @ ls \<and> frontmatter (scan_lines ls s) = frontmatter s"
  by (induction ls arbitrary: s) (auto simp: scan_line_def keep_line_def Let_def)

lemma scan_in_frontmatter:
  assumes "count s = 1" and "inFrontmatter s"
  shows "frontmatter (scan_lines ls s)
           = frontmatter s @ takeWhile (\<lambda>l. \<not> HasPrefix l ''---'') ls
       \<and> content (scan_lines ls s)
           = content s @ drop 1 (dropWhile (\<lambda>l. \<not> HasPrefix l ''---'') ls)"
  using assms
proof (induction ls arbitrary: s)
  case Nil
  then show ?case by simp
next
  case (Cons l ls)
  let ?s = "scan_line l s"
  show ?case
  proof (cases "HasPrefix l ''---''")
    case True
    have "2 \<le> count ?s" "\<not> inFrontmatter ?s" "content ?s = content s"
      "frontmatter ?s = frontmatter s"
      using True Cons.prems by (simp_all add: scan_line_def Let_def)
    then show ?thesis using True scan_after_closing [of ?s ls] by simp
  next
    case False
    have "count ?s = 1" "inFrontmatter ?s" "content ?s = content s"
      "frontmatter ?s = frontmatter s @ [l]"
      using False Cons.prems by (simp_all add: scan_line_def keep_line_def)
    then show ?thesis using False Cons.IH [of ?s] by simp
  qed
qed

text \<open>
  C2, as amended. A delimiter is a line that begins with three hyphens, whatever follows
  them. After any lines \<open>ls\<close> of the input the loop has counted the delimiters among them
  and is in metadata mode exactly when it has met one delimiter: the first delimiter
  switches the mode on and the second switches it off. The next line \<open>l\<close> changes the mode
  exactly when it is a delimiter and fewer than two delimiters precede it, so no other
  line toggles the mode.
\<close>

theorem splitter_delimiter_and_mode:
  "count (scan_lines ls scan_init) = length (filter (\<lambda>l. HasPrefix l ''---'') ls)
   \<and> inFrontmatter (scan_lines ls scan_init)
       = (length (filter (\<lambda>l. HasPrefix l ''---'') ls) = 1)
   \<and> (inFrontmatter (scan_lines (ls @ [l]) scan_init) \<noteq> inFrontmatter (scan_lines ls scan_init))
       = (HasPrefix l ''---'' \<and> length (filter (\<lambda>l. HasPrefix l ''---'') ls) < 2)"
proof -
  have 1: "count (scan_lines ls scan_init) = length (filter (\<lambda>l. HasPrefix l ''---'') ls)"
    by (simp add: count_scan_lines scan_init_def)
  have 3: "(inFrontmatter (scan_lines (ls @ [l]) scan_init)
              \<noteq> inFrontmatter (scan_lines ls scan_init))
       = (HasPrefix l ''---'' \<and> length (filter (\<lambda>l. HasPrefix l ''---'') ls) < 2)"
  proof -
    define n where "n = length (filter (\<lambda>l. HasPrefix l ''---'') ls)"
    have "length (filter (\<lambda>l. HasPrefix l ''---'') (ls @ [l]))
            = n + (if HasPrefix l ''---'' then 1 else 0)"
      by (simp add: n_def)
    then have "((length (filter (\<lambda>l. HasPrefix l ''---'') (ls @ [l])) = 1) \<noteq> (n = 1))
       = (HasPrefix l ''---'' \<and> n < 2)"
      by (cases "HasPrefix l ''---''") (simp_all, arith)
    then show ?thesis by (simp only: mode_scan_lines n_def)
  qed
  from 1 3 show ?thesis by (simp only: mode_scan_lines)
qed

theorem splitter_delimiter_and_mode_witness:
  "count (scan_lines [''---'', ''title: x''] scan_init) = 1
   \<and> inFrontmatter (scan_lines [''---'', ''title: x''] scan_init)
   \<and> \<not> inFrontmatter (scan_lines [''---'', ''title: x'', ''---''] scan_init)"
  using splitter_delimiter_and_mode [of "[''---'', ''title: x'']" "''---''"]
  by (simp add: HasPrefix_def)

text \<open>
  C2 as stated fails: no line of this input consists of exactly three hyphens, yet the
  first line switches the splitter into metadata mode and the third line switches it
  back.
\<close>

theorem splitter_exact_delimiter_counterexample:
  "''---'' \<notin> set [''--- draft'', ''title: x'', ''----'', ''body'']
   \<and> inFrontmatter (scan_lines [''--- draft''] scan_init)
   \<and> frontmatter (scan_lines [''--- draft'', ''title: x'', ''----'', ''body''] scan_init)
       = [''title: x'']
   \<and> content (scan_lines [''--- draft'', ''title: x'', ''----'', ''body''] scan_init)
       = [''body'']"
  by (simp add: scan_defs)

text \<open>
  C3, as amended. When the first delimiter line \<open>d\<close> comes after the lines \<open>pre\<close>, the lines
  \<open>pre\<close> are kept: they are the first lines of the body, followed by everything after the
  closing delimiter. None of them is in the metadata block, which holds the lines
  between the first delimiter and the next one.
\<close>

theorem lines_before_first_delimiter_kept:
  assumes "\<forall>l \<in> set pre. \<not> HasPrefix l ''---''" and "HasPrefix d ''---''"
  shows "frontmatter (scan_lines (pre @ d # rest) scan_init)
           = takeWhile (\<lambda>l. \<not> HasPrefix l ''---'') rest
       \<and> content (scan_lines (pre @ d # rest) scan_init)
           = pre @ drop 1 (dropWhile (\<lambda>l. \<not> HasPrefix l ''---'') rest)"
proof -
  let ?s0 = "scan_lines pre scan_init"
  have s0: "?s0 = scan_init\<lparr>content := pre\<rparr>"
    using scan_body_lines [OF assms(1), of scan_init] by (simp add: scan_init_def)
  let ?s1 = "scan_line d ?s0"
  have "count ?s1 = 1" "inFrontmatter ?s1" "content ?s1 = pre" "frontmatter ?s1 = []"
    unfolding s0 using assms(2) by (simp_all add: scan_line_def scan_init_def Let_def)
  then show ?thesis using scan_in_frontmatter [of ?s1 rest] by (simp add: scan_lines_append)
qed

theorem lines_before_first_delimiter_kept_witness:
  "\<not> HasPrefix ''intro'' ''---'' \<and> HasPrefix ''---'' ''---''
   \<and> frontmatter (scan_lines [''intro'', ''---'', ''title: x'', ''---'', ''body'', ''---'', ''more'']
        scan_init) = [''title: x'']
   \<and> content (scan_lines [''intro'', ''---'', ''title: x'', ''---'', ''body'', ''---'', ''more'']
        scan_init) = [''intro'', ''body'', ''---'', ''more'']"
proof -
  have h1: "\<forall>l \<in> set [''intro'']. \<not> HasPrefix l ''---''" and h2: "HasPrefix ''---'' ''---''"
    by (simp_all add: HasPrefix_def)
  show ?thesis
    using h1 h2
      lines_before_first_delimiter_kept [OF h1 h2, of "[''title: x'', ''---'', ''body'', ''---'', ''more'']"]
    by (simp add: HasPrefix_def)
qed

text \<open>
  C3 as stated fails: the line before the first delimiter is not discarded, it is the
  first line of the body.
\<close>

theorem lines_before_first_delimiter_counterexample:
  "content (scan_lines [''intro'', ''---'', ''title: x'', ''---'', ''body''] scan_init)
     = [''intro'', ''body'']"
  by (simp add: scan_defs)

subsection \<open>Slugs\<close>

lemma slug_of_posts_path: "slug_of (''content/posts/'' @ stem @ ''.md'') = stem"
proof -
  have "TrimSuffix ((''content/posts/'' @ stem) @ ''.md'') ''.md'' = ''content/posts/'' @ stem"
    by (rule TrimSuffix_append)
  then show ?thesis
    using TrimPrefix_append [of "''content/posts/''" stem] by (simp add: slug_of_def)
qed

lemma Slug_readPost: "readPost e fileName baseURL = Inr p \<Longrightarrow> Slug p = slug_of fileName"
  by (auto simp: readPost_def Let_def split: sum.splits)

text \<open>
  C4. \<^verbatim>\<open>readPosts\<close> passes the path \<^verbatim>\<open>content/posts/<stem>.md\<close>; the slug is the stem, so
  two such paths have the same slug exactly when they have the same stem, and
  \<^verbatim>\<open>content/posts/hello-world.md\<close> has the slug \<^verbatim>\<open>hello-world\<close>. The slug of a post that
  \<^verbatim>\<open>readPost\<close> returns is that function of the file name alone: it depends neither on the
  contents of the file nor on the environment.
\<close>

theorem slug_derivation:
  "slug_of (post_path ''content/posts'' (stem @ ''.md'')) = stem
   \<and> (slug_of (post_path ''content/posts'' (stem @ ''.md''))
        = slug_of (post_path ''content/posts'' (stem' @ ''.md''))) = (stem = stem')
   \<and> slug_of ''content/posts/hello-world.md'' = ''hello-world''
   \<and> (\<forall>p. readPost e fileName baseURL = Inr p \<longrightarrow> Slug p = slug_of fileName)"
  using slug_of_posts_path [of stem] slug_of_posts_path [of stem']
    slug_of_posts_path [of "''hello-world''"]
  by (simp add: post_path_def Slug_readPost)

theorem slug_derivation_witness:
  "readPost example_env ''content/posts/hello-world.md'' [] = Inr hello_world
   \<and> Slug hello_world = slug_of ''content/posts/hello-world.md''
   \<and> slug_of (post_path ''content/posts'' (''plain'' @ ''.md'')) = ''plain''
   \<and> slug_of (post_path ''content/posts'' (''plain'' @ ''.md''))
       \<noteq> slug_of (post_path ''content/posts'' (''hello-world'' @ ''.md''))"
  using example_readPost_hello
    slug_derivation [of "''plain''" "''hello-world''" example_env
      "''content/posts/hello-world.md''" "[]"]
  by (simp add: post_path_def slug_defs)

subsection \<open>The collection reader\<close>

text \<open>
  The loop returns a collection exactly when every selected entry is read without
  error, and then the collection holds the post of each selected entry, in order.
\<close>

lemma readPosts_loop_Inr:
  "(readPosts_loop e dir baseURL files acc = Inr posts) =
     (\<exists>ps. posts = acc @ ps \<and>
        map (\<lambda>f. readPost e (post_path dir (Name f)) baseURL) (filter selected files)
          = map Inr ps)"
proof (induction files arbitrary: acc)
  case Nil
  then show ?case by auto
next
  case (Cons f files)
  show ?case
  proof (cases "selected f")
    case False
    then show ?thesis using Cons.IH by simp
  next
    case True
    show ?thesis
    proof (cases "readPost e (post_path dir (Name f)) baseURL")
      case (Inl err)
      then show ?thesis using True by (auto simp: Cons_eq_map_conv)
    next
      case (Inr post)
      have "(\<exists>ps. posts = (acc @ [post]) @ ps \<and>
              map (\<lambda>f. readPost e (post_path dir (Name f)) baseURL) (filter selected files)
                = map Inr ps)
          = (\<exists>ps. posts = acc @ ps \<and>
              Inr post
                # map (\<lambda>f. readPost e (post_path dir (Name f)) baseURL) (filter selected files)
                = map Inr ps)"
        by (auto simp: Cons_eq_map_conv)
      then show ?thesis using True Inr Cons.IH [of "acc @ [post]"] by simp
    qed
  qed
qed

text \<open>
  The loop returns the error \<open>err\<close> exactly when some selected entry gives \<open>err\<close> and
  all selected entries before it are read without error.
\<close>

lemma readPosts_loop_Inl:
  "(readPosts_loop e dir baseURL files acc = Inl err) =
     (\<exists>ps rest.
        map (\<lambda>f. readPost e (post_path dir (Name f)) baseURL) (filter selected files)
          = map Inr ps @ Inl err # rest)"
proof (induction files arbitrary: acc)
  case Nil
  then show ?case by auto
next
  case (Cons f files)
  let ?rs = "map (\<lambda>f. readPost e (post_path dir (Name f)) baseURL) (filter selected files)"
  show ?case
  proof (cases "selected f")
    case False
    then show ?thesis using Cons.IH by simp
  next
    case True
    show ?thesis
    proof (cases "readPost e (post_path dir (Name f)) baseURL")
      case (Inl err0)
      have "(\<exists>ps rest. Inl err0 # ?rs = map Inr ps @ Inl err # rest) = (err0 = err)"
        by (auto simp: Cons_eq_append_conv Cons_eq_map_conv)
      then show ?thesis using True Inl by auto
    next
      case (Inr post)
      have "(\<exists>ps rest. Inr post # ?rs = map Inr ps @ Inl err # rest)
          = (\<exists>ps rest. ?rs = map Inr ps @ Inl err # rest)" (is "?L = ?R")
      proof
        assume ?L
        then obtain ps rest where *: "Inr post # ?rs = map Inr ps @ Inl err # rest"
          by blast
        then obtain ps' where "ps = post # ps'" by (cases ps) auto
        with * show ?R by auto
      next
        assume ?R
        then obtain ps rest where "?rs = map Inr ps @ Inl err # rest" by blast
        then have "Inr post # ?rs = map Inr (post # ps) @ Inl err # rest" by simp
        then show ?L by blast
      qed
      then show ?thesis using True Inr Cons.IH [of "acc @ [post]"] by simp
    qed
  qed
qed

lemma readPost_Inl:
  "(readPost e fileName baseURL = Inl err) =
     (os_Open e fileName = Inl err \<or>
      (\<exists>lines. os_Open e fileName = Inr lines \<and>
         yaml_Unmarshal e (Join (frontmatter (scan_lines lines scan_init)) newline) = Inl err))"
  by (auto simp: readPost_def Let_def split: sum.splits)

lemma main_readPosts_Inl:
  "os_MkdirAll e ''output'' = None \<Longrightarrow> os_MkdirAll e ''content/posts'' = None \<Longrightarrow>
   readPosts e ''content/posts'' (os_Getenv e ''BASE_URL'') = Inl err \<Longrightarrow>
   main e ks out = Inl err"
  by (simp add: main_def)

text \<open>
  C6. The selected entries of the directory are its direct entries that are not
  directories and whose name ends in \<^verbatim>\<open>.md\<close>; a directory is never opened.
  \<^item> When the directory cannot be read, \<^verbatim>\<open>readPosts\<close> returns that error.
  \<^item> \<^verbatim>\<open>readPosts\<close> returns a collection exactly when every selected entry is read
    without error, and the collection is then the posts of the selected entries, one
    per entry, in the order of the directory.
  \<^item> \<^verbatim>\<open>readPosts\<close> returns an error \<open>err\<close> exactly when reading some selected entry gives
    \<open>err\<close> and all selected entries before it are read without error: the first error
    ends the run and no collection is returned.
  \<^item> Reading an entry gives an error exactly when the file cannot be opened or its
    metadata cannot be decoded.
  \<^item> \<^verbatim>\<open>main\<close> ends with the error of \<^verbatim>\<open>readPosts\<close> and writes no document.
\<close>

theorem readPosts_fail_fast:
  "(\<forall>err. os_ReadDir e dir = Inl err \<longrightarrow> readPosts e dir baseURL = Inl err)
   \<and> (\<forall>files posts. os_ReadDir e dir = Inr files \<longrightarrow>
        (readPosts e dir baseURL = Inr posts) =
        (map (\<lambda>f. readPost e (post_path dir (Name f)) baseURL) (filter selected files)
           = map Inr posts))
   \<and> (\<forall>files err. os_ReadDir e dir = Inr files \<longrightarrow>
        (readPosts e dir baseURL = Inl err) =
        (\<exists>ps rest.
           map (\<lambda>f. readPost e (post_path dir (Name f)) baseURL) (filter selected files)
             = map Inr ps @ Inl err # rest))
   \<and> (\<forall>fileName err. (readPost e fileName baseURL = Inl err) =
        (os_Open e fileName = Inl err \<or>
         (\<exists>lines. os_Open e fileName = Inr lines \<and>
            yaml_Unmarshal e (Join (frontmatter (scan_lines lines scan_init)) newline)
              = Inl err)))
   \<and> (\<forall>err ks out. os_MkdirAll e ''output'' = None \<and> os_MkdirAll e ''content/posts'' = None
        \<and> readPosts e ''content/posts'' (os_Getenv e ''BASE_URL'') = Inl err
        \<longrightarrow> main e ks out = Inl err)"
  by (simp add: readPosts_def readPosts_loop_Inr readPosts_loop_Inl readPost_Inl
      main_readPosts_Inl)

lemma unreadable_results:
  "map (\<lambda>f. readPost unreadable_env (post_path ''content/posts'' (Name f)) [])
     (filter selected example_dir)
   = map Inr [hello_world] @ Inl (IOError ''permission denied'') # []"
  by (simp add: example_selected post_path_def)
     (simp add: readPost_def example_defs scan_defs slug_defs)

theorem readPosts_fail_fast_witness:
  "os_ReadDir example_env ''content/posts'' = Inr example_dir
   \<and> map Name (filter selected example_dir) = [''hello-world.md'', ''plain.md'']
   \<and> readPosts example_env ''content/posts'' [] = Inr [hello_world, plain_post]
   \<and> os_ReadDir unreadable_env ''content/posts'' = Inr example_dir
   \<and> readPosts unreadable_env ''content/posts'' [] = Inl (IOError ''permission denied'')"
proof -
  have d: "os_ReadDir example_env ''content/posts'' = Inr example_dir"
    by (rule example_ReadDir)
  have d': "os_ReadDir unreadable_env ''content/posts'' = Inr example_dir"
    by (simp add: unreadable_env_def example_env_def)
  have ok: "map (\<lambda>f. readPost example_env (post_path ''content/posts'' (Name f)) [])
              (filter selected example_dir) = map Inr [hello_world, plain_post]"
    by (simp add: example_selected post_path_def example_readPost_hello example_readPost_plain)
  have 1: "readPosts example_env ''content/posts'' [] = Inr [hello_world, plain_post]"
    using readPosts_fail_fast [of example_env "''content/posts''" "[]"] d ok by blast
  have 2: "readPosts unreadable_env ''content/posts'' [] = Inl (IOError ''permission denied'')"
    using readPosts_fail_fast [of unreadable_env "''content/posts''" "[]"] d' unreadable_results
    by blast
  from d d' 1 2 show ?thesis by (simp add: example_selected)
qed

subsection \<open>A file with no delimiter\<close>






subsection \<open>The order of the collection\<close>






subsection \<open>The page composer\<close>

lemma write_page_Inr:
  "(write_page e t path d out = Inr out1) =
     (os_Create e path = None \<and>
      (\<exists>doc. template_Execute e t d = Inr doc \<and> out1 = out(path \<mapsto> doc)))"
  by (auto simp: write_page_def split: option.splits sum.splits)

lemma map_add_twice: "(o1 ++ D) ++ D = o1 ++ (D :: 'a \<rightharpoonup> 'b)"
  by (rule ext) (simp add: map_add_def split: option.splits)

lemma upd_map_add: "D0 = [path \<mapsto> doc] \<Longrightarrow> o1(path \<mapsto> doc) ++ D = o1 ++ (D0 ++ D)"
  by (rule ext) (simp add: map_add_def split: option.splits)

text \<open>
  A loop that succeeds once succeeds on every output directory, and adds the same
  documents to it.
\<close>

lemma generatePosts_loop_add:
  "generatePosts_loop e t posts out = Inr out1 \<Longrightarrow>
   \<exists>D. \<forall>o1. generatePosts_loop e t posts o1 = Inr (o1 ++ D)"
proof (induction posts arbitrary: out out1)
  case Nil
  have "\<forall>o1. generatePosts_loop e t [] o1 = Inr (o1 ++ Map.empty)" by simp
  then show ?case by blast
next
  case (Cons post rest)
  from Cons.prems obtain out2 where
    w: "write_page e t (post_file post) (PostData post) out = Inr out2"
    and l: "generatePosts_loop e t rest out2 = Inr out1"
    by (auto split: sum.splits)
  from w obtain doc where c: "os_Create e (post_file post) = None"
    and d: "template_Execute e t (PostData post) = Inr doc"
    by (auto simp: write_page_Inr)
  from Cons.IH [OF l] obtain D where D: "\<forall>o1. generatePosts_loop e t rest o1 = Inr (o1 ++ D)"
    by blast
  define D0 where "D0 = [post_file post \<mapsto> doc]"
  have "\<forall>o1. generatePosts_loop e t (post # rest) o1 = Inr (o1 ++ (D0 ++ D))"
    using c d D by (simp add: write_page_def upd_map_add [OF D0_def])
  then show ?case by blast
qed

lemma tag_file_inject: "(tag_file a = tag_file b) = (a = b)"
  by (simp add: tag_file_def)

lemma generateTags_loop_ok:
  "generateTags_loop e t tags b ks out = Inr out1 \<Longrightarrow>
   \<forall>k \<in> set ks. os_Create e (tag_file k) = None \<and>
      (\<exists>doc. template_Execute e t (TagData k (tag_lookup tags k) b) = Inr doc)"
proof (induction ks arbitrary: out)
  case Nil
  then show ?case by simp
next
  case (Cons k ks)
  from Cons.prems obtain out2 where
    w: "write_page e t (tag_file k) (TagData k (tag_lookup tags k) b) out = Inr out2"
    and l: "generateTags_loop e t tags b ks out2 = Inr out1"
    by (auto split: sum.splits)
  from w Cons.IH [OF l] show ?case by (auto simp: write_page_Inr)
qed

text \<open>
  When every page of the loop can be written, the loop leaves the document of each tag
  in the file of the tag and no other file changes: the files of distinct tags are
  distinct.
\<close>

lemma generateTags_loop_result:
  "\<forall>k \<in> set ks. os_Create e (tag_file k) = None \<and>
      (\<exists>doc. template_Execute e t (TagData k (tag_lookup tags k) b) = Inr doc) \<Longrightarrow>
   \<exists>r. generateTags_loop e t tags b ks o1 = Inr r \<and>
       (\<forall>k \<in> set ks.
          template_Execute e t (TagData k (tag_lookup tags k) b) = Inr (the (r (tag_file k)))
          \<and> r (tag_file k) \<noteq> None) \<and>
       (\<forall>p. p \<notin> tag_file ` set ks \<longrightarrow> r p = o1 p)"
proof (induction ks arbitrary: o1)
  case Nil
  then show ?case by simp
next
  case (Cons k ks)
  from Cons.prems obtain doc where c: "os_Create e (tag_file k) = None"
    and d: "template_Execute e t (TagData k (tag_lookup tags k) b) = Inr doc"
    by auto
  from Cons.prems have "\<forall>k \<in> set ks. os_Create e (tag_file k) = None \<and>
      (\<exists>doc. template_Execute e t (TagData k (tag_lookup tags k) b) = Inr doc)"
    by simp
  from Cons.IH [OF this, of "o1(tag_file k \<mapsto> doc)"] obtain r where
    r: "generateTags_loop e t tags b ks (o1(tag_file k \<mapsto> doc)) = Inr r"
    and r1: "\<forall>k \<in> set ks.
          template_Execute e t (TagData k (tag_lookup tags k) b) = Inr (the (r (tag_file k)))
          \<and> r (tag_file k) \<noteq> None"
    and r2: "\<forall>p. p \<notin> tag_file ` set ks \<longrightarrow> r p = (o1(tag_file k \<mapsto> doc)) p"
    by blast
  have run: "generateTags_loop e t tags b (k # ks) o1 = Inr r"
    using c d r by (simp add: write_page_def)
  have here: "template_Execute e t (TagData k (tag_lookup tags k) b) = Inr (the (r (tag_file k)))
                \<and> r (tag_file k) \<noteq> None"
  proof (cases "k \<in> set ks")
    case True
    then show ?thesis using r1 by blast
  next
    case False
    then have "tag_file k \<notin> tag_file ` set ks" by (auto simp: tag_file_inject)
    then have "r (tag_file k) = Some doc" using r2 by simp
    then show ?thesis using d by simp
  qed
  have other: "\<forall>p. p \<notin> tag_file ` set (k # ks) \<longrightarrow> r p = o1 p"
    using r2 by auto
  from run here r1 other show ?case by auto
qed

lemma generateTags_loop_add:
  assumes "generateTags_loop e t tags b ks out = Inr out1"
  shows "\<exists>D. \<forall>o1 ks'. set ks' = set ks \<longrightarrow>
           generateTags_loop e t tags b ks' o1 = Inr (o1 ++ D)"
proof -
  have ok: "\<forall>k \<in> set ks. os_Create e (tag_file k) = None \<and>
      (\<exists>doc. template_Execute e t (TagData k (tag_lookup tags k) b) = Inr doc)"
    using assms by (rule generateTags_loop_ok)
  from generateTags_loop_result [OF ok, of Map.empty] obtain D where
    D1: "\<forall>k \<in> set ks.
          template_Execute e t (TagData k (tag_lookup tags k) b) = Inr (the (D (tag_file k)))
          \<and> D (tag_file k) \<noteq> None"
    and D2: "\<forall>p. p \<notin> tag_file ` set ks \<longrightarrow> D p = None"
    by auto
  have "generateTags_loop e t tags b ks' o1 = Inr (o1 ++ D)" if s: "set ks' = set ks"
    for o1 ks'
  proof -
    have ok': "\<forall>k \<in> set ks'. os_Create e (tag_file k) = None \<and>
      (\<exists>doc. template_Execute e t (TagData k (tag_lookup tags k) b) = Inr doc)"
      using ok s by simp
    from generateTags_loop_result [OF ok', of o1] obtain r where
      r: "generateTags_loop e t tags b ks' o1 = Inr r"
      and r1: "\<forall>k \<in> set ks.
          template_Execute e t (TagData k (tag_lookup tags k) b) = Inr (the (r (tag_file k)))
          \<and> r (tag_file k) \<noteq> None"
      and r2: "\<forall>p. p \<notin> tag_file ` set ks \<longrightarrow> r p = o1 p"
      unfolding s by blast
    have "r = o1 ++ D"
    proof (rule ext)
      fix p
      show "r p = (o1 ++ D) p"
      proof (cases "p \<in> tag_file ` set ks")
        case True
        then obtain k where k: "k \<in> set ks" "p = tag_file k" by blast
        from r1 D1 k have "Inr (the (r p)) = (Inr (the (D p)) :: error + string)"
          "r p \<noteq> None" "D p \<noteq> None"
          by (metis, blast, blast)
        then have "r p = D p" by auto
        then show ?thesis using \<open>D p \<noteq> None\<close> by (auto simp: map_add_def)
      next
        case False
        then show ?thesis using r2 D2 by (simp add: map_add_def)
      qed
    qed
    with r show ?thesis by simp
  qed
  then show ?thesis by blast
qed

lemma compose_add:
  assumes "compose e posts baseURL ks out = Inr out1"
  shows "\<exists>D. \<forall>o1 ks'. set ks' = set ks \<longrightarrow> compose e posts baseURL ks' o1 = Inr (o1 ++ D)"
proof -
  from assms obtain out2 out3 where
    p: "generatePosts e posts baseURL out = Inr out2"
    and i: "generateIndex e posts baseURL out2 = Inr out3"
    and t: "generateTags e posts baseURL ks out3 = Inr out1"
    by (auto simp: compose_def split: sum.splits)
  from p obtain tp where
    tp: "template_ParseFiles e [''templates/layout.html'', ''templates/post.html''] = Inr tp"
    and lp: "generatePosts_loop e tp posts out = Inr out2"
    by (auto simp: generatePosts_def split: sum.splits)
  from generatePosts_loop_add [OF lp] obtain D1 where
    D1: "\<forall>o1. generatePosts_loop e tp posts o1 = Inr (o1 ++ D1)"
    by blast
  from i obtain ti doc where
    ti: "template_ParseFiles e [''templates/layout.html'', ''templates/index.html''] = Inr ti"
    and ci: "os_Create e ''output/index.html'' = None"
    and di: "template_Execute e ti (IndexData posts baseURL) = Inr doc"
    by (auto simp: generateIndex_def write_page_Inr split: sum.splits)
  from t obtain tt where
    tt: "template_ParseFiles e [''templates/layout.html'', ''templates/tag.html''] = Inr tt"
    and lt: "generateTags_loop e tt (buildTagIndex posts) baseURL ks out3 = Inr out1"
    by (auto simp: generateTags_def split: sum.splits)
  from generateTags_loop_add [OF lt] obtain D3 where
    D3: "\<forall>o1 ks'. set ks' = set ks \<longrightarrow>
           generateTags_loop e tt (buildTagIndex posts) baseURL ks' o1 = Inr (o1 ++ D3)"
    by blast
  define D2 where "D2 = [''output/index.html'' \<mapsto> doc]"
  have "compose e posts baseURL ks' o1 = Inr (o1 ++ (D1 ++ (D2 ++ D3)))"
    if "set ks' = set ks" for o1 ks'
    using that tp D1 ti ci di tt D3
    by (simp add: compose_def generatePosts_def generateIndex_def generateTags_def
        write_page_def upd_map_add [OF D2_def])
  then show ?thesis by blast
qed

lemma generateIndex_doc:
  assumes "generateIndex e posts baseURL out = Inr out1"
  shows "\<exists>doc. \<forall>o1. generateIndex e posts baseURL o1 = Inr (o1(''output/index.html'' \<mapsto> doc))"
proof -
  from assms obtain ti doc where
    "template_ParseFiles e [''templates/layout.html'', ''templates/index.html''] = Inr ti"
    "os_Create e ''output/index.html'' = None"
    "template_Execute e ti (IndexData posts baseURL) = Inr doc"
    by (auto simp: generateIndex_def write_page_Inr split: sum.splits)
  then have "\<forall>o1. generateIndex e posts baseURL o1 = Inr (o1(''output/index.html'' \<mapsto> doc))"
    by (simp add: generateIndex_def write_page_def)
  then show ?thesis by blast
qed

lemma main_compose:
  "os_MkdirAll e ''output'' = None \<Longrightarrow> os_MkdirAll e ''content/posts'' = None \<Longrightarrow>
   readPosts e ''content/posts'' (os_Getenv e ''BASE_URL'') = Inr posts \<Longrightarrow>
   main e ks out = compose e posts (os_Getenv e ''BASE_URL'') ks out"
  by (simp add: main_def)

text \<open>
  C7. Take a collection, a base URL and an environment (the templates among it), and a
  run of the three generation steps that succeeds from the output directory \<open>out\<close> and
  leaves \<open>out1\<close>, the tag loop running in the order \<open>ks\<close>.
  \<^item> Every run on the same inputs, in whatever order \<open>ks'\<close> the tag loop visits the tags,
    succeeds and leaves the same \<open>out1\<close>; run again on \<open>out1\<close> it leaves \<open>out1\<close> unchanged.
  \<^item> There is one set \<open>docs\<close> of documents that every run writes over the output
    directory it starts from, whatever that directory holds.
  \<^item> The index step writes one document, determined by the collection, the base URL and
    the templates, to \<^verbatim>\<open>output/index.html\<close> and changes nothing else.
  \<^item> The same holds of \<^verbatim>\<open>main\<close>, which reads the collection from \<^verbatim>\<open>content/posts\<close>.
\<close>

theorem generation_deterministic_idempotent:
  assumes "range_order (buildTagIndex posts) ks"
      and "compose e posts baseURL ks out = Inr out1"
  shows "(\<forall>ks'. range_order (buildTagIndex posts) ks' \<longrightarrow>
            compose e posts baseURL ks' out = Inr out1
            \<and> compose e posts baseURL ks' out1 = Inr out1)
       \<and> (\<exists>docs. \<forall>o1 ks'. range_order (buildTagIndex posts) ks' \<longrightarrow>
            compose e posts baseURL ks' o1 = Inr (o1 ++ docs))
       \<and> (\<exists>doc. \<forall>o1. generateIndex e posts baseURL o1
                        = Inr (o1(''output/index.html'' \<mapsto> doc)))
       \<and> (os_MkdirAll e ''output'' = None \<and> os_MkdirAll e ''content/posts'' = None
          \<and> baseURL = os_Getenv e ''BASE_URL''
          \<and> readPosts e ''content/posts'' baseURL = Inr posts \<longrightarrow>
          (\<forall>ks'. range_order (buildTagIndex posts) ks' \<longrightarrow>
             main e ks' out = Inr out1 \<and> main e ks' out1 = Inr out1))"
proof -
  from compose_add [OF assms(2)] obtain D where
    D: "\<forall>o1 ks'. set ks' = set ks \<longrightarrow> compose e posts baseURL ks' o1 = Inr (o1 ++ D)"
    by blast
  have same: "set ks' = set ks" if "range_order (buildTagIndex posts) ks'" for ks'
    using that assms(1) by (simp add: range_order_def)
  have out1: "out1 = out ++ D" using D assms(2) by simp
  have 1: "\<forall>ks'. range_order (buildTagIndex posts) ks' \<longrightarrow>
            compose e posts baseURL ks' out = Inr out1
            \<and> compose e posts baseURL ks' out1 = Inr out1"
    using D same by (simp add: out1 map_add_twice)
  have 2: "\<exists>docs. \<forall>o1 ks'. range_order (buildTagIndex posts) ks' \<longrightarrow>
            compose e posts baseURL ks' o1 = Inr (o1 ++ docs)"
    using D same by blast
  from assms(2) obtain o2 o3 where "generateIndex e posts baseURL o2 = Inr o3"
    by (auto simp: compose_def split: sum.splits)
  then have 3: "\<exists>doc. \<forall>o1. generateIndex e posts baseURL o1
                              = Inr (o1(''output/index.html'' \<mapsto> doc))"
    by (rule generateIndex_doc)
  have 4: "\<forall>ks'. range_order (buildTagIndex posts) ks' \<longrightarrow>
             main e ks' out = Inr out1 \<and> main e ks' out1 = Inr out1"
    if "os_MkdirAll e ''output'' = None" "os_MkdirAll e ''content/posts'' = None"
      "baseURL = os_Getenv e ''BASE_URL''" "readPosts e ''content/posts'' baseURL = Inr posts"
    using that 1 by (simp add: main_compose)
  from 1 2 3 4 show ?thesis by blast
qed

theorem generation_deterministic_idempotent_witness:
  "range_order (buildTagIndex [hello_world, plain_post]) [''intro'', ''test'']
   \<and> range_order (buildTagIndex [hello_world, plain_post]) [''test'', ''intro'']
   \<and> compose example_env [hello_world, plain_post] [] [''intro'', ''test''] Map.empty
       = Inr example_site
   \<and> compose example_env [hello_world, plain_post] [] [''test'', ''intro''] Map.empty
       = Inr example_site
   \<and> compose example_env [hello_world, plain_post] [] [''test'', ''intro''] example_site
       = Inr example_site
   \<and> main example_env [''test'', ''intro''] Map.empty = Inr example_site
   \<and> main example_env [''test'', ''intro''] example_site = Inr example_site"
proof -
  have h1: "range_order (buildTagIndex [hello_world, plain_post]) [''intro'', ''test'']"
    by (simp add: range_order_def example_tags)
  have h2: "range_order (buildTagIndex [hello_world, plain_post]) [''test'', ''intro'']"
    by (auto simp: range_order_def example_tags)
  have m: "os_MkdirAll example_env ''output'' = None"
    "os_MkdirAll example_env ''content/posts'' = None"
    "[] = os_Getenv example_env ''BASE_URL''"
    by (simp_all add: example_env_def)
  note t = generation_deterministic_idempotent [OF h1 example_compose]
  note c = t [THEN conjunct1, THEN spec, THEN mp, OF h2]
  note mn = t [THEN conjunct2, THEN conjunct2, THEN conjunct2, THEN mp,
    OF conjI [OF m(1) conjI [OF m(2) conjI [OF m(3) example_readPosts]]],
    THEN spec, THEN mp, OF h2]
  show ?thesis
    apply (intro conjI)
          apply (rule h1)
         apply (rule h2)
        apply (rule example_compose)
       apply (rule c [THEN conjunct1])
      apply (rule c [THEN conjunct2])
     apply (rule mn [THEN conjunct1])
    apply (rule mn [THEN conjunct2])
    done
qed

end
